theory Spec2Isabelle
  imports Main "HOL-Library.Multiset"
begin

section \<open>The select tool of BokehJS\<close>

text \<open>
  A shallow embedding of \<^verbatim>\<open>bokehjs/src/lib/models/tools/gestures/select_tool.ts\<close>:
  the view class \<^verbatim>\<open>SelectToolView\<close> and the model class \<^verbatim>\<open>SelectTool\<close>.
  The methods of the view return nothing; what they do is call their collaborators (the
  selection managers, the plot view, the plot model, the callback hook). Each method is
  therefore modelled by the sequence of those calls, in the order the code makes them,
  together with the error it throws, if any.
\<close>

subsection \<open>Data model\<close>

datatype SelectionMode = Replace | Append | Intersect | Subtract

datatype error = TypeError | UnreachableCode

text \<open>
  A data source is identified by its \<^verbatim>\<open>id\<close>, a string. Every data source owns one
  selection manager (\<^verbatim>\<open>data_source.selection_manager\<close>).
\<close>

datatype data_source = DataSource (ds_id: string)

datatype selection_manager = SelectionManager (source: data_source)

datatype glyph_renderer = GlyphRenderer (glyph_id: string) (data_source: data_source)

text \<open>
  \<^verbatim>\<open>DataRenderer\<close> is an abstract class. The code tells apart \<^verbatim>\<open>GlyphRenderer\<close>,
  \<^verbatim>\<open>GraphRenderer\<close> (whose \<^verbatim>\<open>node_renderer\<close> is a glyph renderer) and every other
  subclass.
\<close>

datatype data_renderer =
    Glyph glyph_renderer
  | Graph string glyph_renderer
  | OtherDataRenderer string selection_manager

fun renderer_id :: "data_renderer \<Rightarrow> string" where
  "renderer_id (Glyph g) = glyph_id g"
| "renderer_id (Graph i n) = i"
| "renderer_id (OtherDataRenderer i sm) = i"

text \<open>
  Modelled from the spec: \<^verbatim>\<open>get_selection_manager\<close> is abstract in \<^verbatim>\<open>DataRenderer\<close> and
  implemented in \<^verbatim>\<open>glyph_renderer.ts\<close> and \<^verbatim>\<open>graph_renderer.ts\<close>, which are not part of
  the file. The spec says that the selection-state owner is owned by the data source and
  is reached through any renderer sharing that source: a glyph renderer returns the
  manager of its data source, a graph renderer the manager of its node renderer's data
  source. Any other data renderer returns the manager it carries.
\<close>

fun get_selection_manager :: "data_renderer \<Rightarrow> selection_manager" where
  "get_selection_manager (Glyph g) = SelectionManager (data_source g)"
| "get_selection_manager (Graph i n) = SelectionManager (data_source n)"
| "get_selection_manager (OtherDataRenderer i sm) = sm"

subsection \<open>Plain JavaScript objects used as dictionaries\<close>

text \<open>
  \<^verbatim>\<open>const renderers_by_source: {[key: string]: DataRenderer[]} = {}\<close> is an object
  literal: its own properties, kept here in creation order, and the properties it
  inherits from \<^verbatim>\<open>Object.prototype\<close>. The operator \<^verbatim>\<open>in\<close> sees both; a \<^verbatim>\<open>for ... in\<close>
  loop sees the own ones only (the inherited ones are not enumerable).
\<close>

type_synonym 'a js_object = "(string \<times> 'a) list"

definition Object_prototype_keys :: "string list" where
  "Object_prototype_keys =
     [''constructor'', ''__defineGetter__'', ''__defineSetter__'', ''hasOwnProperty'',
      ''__lookupGetter__'', ''__lookupSetter__'', ''isPrototypeOf'',
      ''propertyIsEnumerable'', ''toString'', ''valueOf'', ''__proto__'',
      ''toLocaleString'']"

definition has_own :: "string \<Rightarrow> 'a js_object \<Rightarrow> bool" where
  "has_own k obj = (k \<in> set (map fst obj))"

definition js_in :: "string \<Rightarrow> 'a js_object \<Rightarrow> bool" where
  "js_in k obj = (if has_own k obj then True else k \<in> set Object_prototype_keys)"

text \<open>
  \<^verbatim>\<open>obj[k].push(r)\<close>. When \<open>k\<close> is an own property its value is an array and \<open>r\<close> is
  appended. Otherwise \<^verbatim>\<open>obj[k]\<close> is \<^verbatim>\<open>undefined\<close> or a member of \<^verbatim>\<open>Object.prototype\<close>,
  none of which has a method \<^verbatim>\<open>push\<close>: the call throws a \<^verbatim>\<open>TypeError\<close>.
\<close>

definition push_at :: "'a list js_object \<Rightarrow> string \<Rightarrow> 'a \<Rightarrow> error + 'a list js_object" where
  "push_at obj k r =
     (if has_own k obj
      then Inr (map (\<lambda>(k', rs). if k' = k then (k', rs @ [r]) else (k', rs)) obj)
      else Inl TypeError)"

text \<open>
  What \<^verbatim>\<open>obj[k]\<close> reads: the value of the own property \<open>k\<close>; or, when \<open>k\<close> is no own
  property but a name of \<^verbatim>\<open>Object.prototype\<close>, the inherited member of that name (a
  function, or \<^verbatim>\<open>Object.prototype\<close> itself for \<^verbatim>\<open>__proto__\<close>); or \<^verbatim>\<open>undefined\<close>.
\<close>

datatype 'a js_value = Own_value 'a | Inherited_member string | Undefined

definition js_get :: "'a js_object \<Rightarrow> string \<Rightarrow> 'a js_value" where
  "js_get obj k =
     (case map_of obj k of
        Some x \<Rightarrow> Own_value x
      | None \<Rightarrow> if k \<in> set Object_prototype_keys then Inherited_member k else Undefined)"

text \<open>
  The order of \<^verbatim>\<open>for (const id in obj)\<close>: the keys that are array indices (the decimal
  numeral, without leading zeros, of a number below \<open>2\<^sup>3\<^sup>2 - 1\<close>) in ascending numeric
  order, then the other keys in creation order.
\<close>

definition is_digit :: "char \<Rightarrow> bool" where
  "is_digit c = (c \<in> set ''0123456789'')"

definition digit_val :: "char \<Rightarrow> int" where
  "digit_val c = of_char c - 48"

definition string_to_int :: "string \<Rightarrow> int" where
  "string_to_int s = foldl (\<lambda>a c. 10 * a + digit_val c) 0 s"

definition is_array_index :: "string \<Rightarrow> bool" where
  "is_array_index s =
     (case s of
        [] \<Rightarrow> False
      | c # cs \<Rightarrow>
          list_all is_digit s \<and> (if c = CHR ''0'' then cs = [] else True) \<and>
          string_to_int s < 4294967295)"

definition for_in :: "'a js_object \<Rightarrow> 'a js_object" where
  "for_in obj =
     sort_key (\<lambda>p. string_to_int (fst p)) (filter (\<lambda>p. is_array_index (fst p)) obj) @
     filter (\<lambda>p. \<not> is_array_index (fst p)) obj"

subsection \<open>Grouping the renderers by data source\<close>

text \<open>
  The branch at the head of the loop body of \<^verbatim>\<open>_computed_renderers_by_data_source\<close>:
  \<open>None\<close> is \<^verbatim>\<open>continue\<close>.
\<close>

fun source_id :: "data_renderer \<Rightarrow> string option" where
  "source_id (Glyph g) = Some (ds_id (data_source g))"
| "source_id (Graph i n) = Some (ds_id (data_source n))"
| "source_id (OtherDataRenderer i sm) = None"

fun renderers_by_source_loop ::
  "data_renderer list \<Rightarrow> data_renderer list js_object \<Rightarrow> error + data_renderer list js_object"
where
  "renderers_by_source_loop [] obj = Inr obj"
| "renderers_by_source_loop (r # rs) obj =
     (case source_id r of
        None \<Rightarrow> renderers_by_source_loop rs obj
      | Some sid \<Rightarrow>
          (let obj1 = (if \<not> js_in sid obj then obj @ [(sid, [])] else obj)
           in case push_at obj1 sid r of
                Inl e \<Rightarrow> Inl e
              | Inr obj2 \<Rightarrow> renderers_by_source_loop rs obj2))"

subsection \<open>The tool, its view and their collaborators\<close>

text \<open>
  Modelled from the spec: the clear signal is a \<^verbatim>\<open>Signal0\<close> of \<^verbatim>\<open>core/signaling\<close>, which
  is not part of the file. The spec describes a zero-payload broadcast primitive to
  which any number of listeners subscribe. A signal is the list of its connected slots
  in the order of connection: the closure \<^verbatim>\<open>() => this._clear()\<close> of this view, or any
  other listener, known by a name.
\<close>

datatype slot = View_clear | Other_listener string

record 'c SelectTool =
  mode :: SelectionMode
  callback :: "'c option"
  clear :: "slot list"

text \<open>
  A scale of the frame: the three inversions the code calls. They are parameters of the
  model, as are the numbers they work on.
\<close>

record 'n Scale =
  invert :: "'n \<Rightarrow> 'n"
  r_invert :: "'n \<Rightarrow> 'n \<Rightarrow> 'n \<times> 'n"
  v_invert :: "'n list \<Rightarrow> 'n list"

record 'n CartesianFrame =
  xscales_default :: "'n Scale"
  yscales_default :: "'n Scale"

text \<open>
  \<^verbatim>\<open>renderer_views\<close> is an object of the plot view, declared in another file and used
  here as a dictionary, like \<^verbatim>\<open>renderers_by_source\<close>: its own properties map the id of a
  renderer to its view, and it inherits from \<^verbatim>\<open>Object.prototype\<close>. The code reads it with
  \<^verbatim>\<open>in\<close> and with \<^verbatim>\<open>renderer_views[id]\<close>, which see the inherited members as well.
\<close>

record ('v, 'n) PlotView =
  frame :: "'n CartesianFrame"
  renderer_views :: "'v js_object"

text \<open>
  The view. \<^verbatim>\<open>computed_renderers\<close> is the value of the getter of that name, which
  comes from \<^verbatim>\<open>compute_renderers\<close> of another file.
\<close>

record ('v, 'n, 'c) SelectToolView =
  model :: "'c SelectTool"
  plot_view :: "('v, 'n) PlotView"
  computed_renderers :: "data_renderer list"

record UIEvent =
  shiftKey :: bool
  ctrlKey :: bool

record KeyEvent =
  keyCode :: nat

text \<open>
  Modelled from the spec: the key code of the Escape key, \<^verbatim>\<open>Keys.Esc\<close> of \<^verbatim>\<open>core/dom\<close>,
  which is not part of the file.
\<close>

definition Keys_Esc :: nat where
  "Keys_Esc = 27"

text \<open>
  Modelled from the spec: the union \<^verbatim>\<open>Geometry\<close> of \<^verbatim>\<open>core/geometry\<close>, which is not part
  of the file. The spec lists the shapes \<open>point {sx, sy}\<close>, \<open>span {sx, sy}\<close>,
  \<open>rect {sx0, sx1, sy0, sy1}\<close> and \<open>poly {sx: seq, sy: seq}\<close>.
\<close>

datatype 'n Geometry =
    PointGeometry 'n 'n
  | SpanGeometry 'n 'n
  | RectGeometry 'n 'n 'n 'n
  | PolyGeometry "'n list" "'n list"

text \<open>
  \<^verbatim>\<open>GeometryData\<close>: the geometry itself (\<^verbatim>\<open>...geometry\<close>) and the fields added to it,
  \<open>x, y\<close>, or \<open>x0, y0, x1, y1\<close>, or the sequences \<open>x, y\<close>.
\<close>

datatype 'n GeometryData =
    With_x_y "'n Geometry" 'n 'n
  | With_x0_y0_x1_y1 "'n Geometry" 'n 'n 'n 'n
  | With_xs_ys "'n Geometry" "'n list" "'n list"

text \<open>
  The calls a method makes on its collaborators:
  \<^item> \<^verbatim>\<open>sm.select(r_views, geometry, final, mode)\<close> and \<^verbatim>\<open>sm.clear()\<close> on a selection manager
    (\<^verbatim>\<open>r_views\<close> holds what was read from \<^verbatim>\<open>renderer_views\<close>);
  \<^item> \<^verbatim>\<open>this.plot_view.request_render()\<close>;
  \<^item> \<^verbatim>\<open>this._emit_callback(geometry)\<close>, a method of the subclasses;
  \<^item> \<^verbatim>\<open>this.plot_model.trigger_event(new SelectionGeometry(geometry_data, final))\<close>;
  \<^item> the call of a listener of the clear signal other than this view's.
\<close>

datatype ('v, 'n) call =
    Sm_select selection_manager "'v js_value list" "'n Geometry" bool SelectionMode
  | Sm_clear selection_manager
  | Request_render
  | Emit_callback "'n Geometry"
  | Trigger_event "'n GeometryData" bool
  | Listener_call string

text \<open>
  What a method did: the calls it made, and the error it threw, if any.
\<close>

type_synonym ('v, 'n) run = "('v, 'n) call list \<times> error option"

subsection \<open>The methods of the view\<close>

text \<open>\<^verbatim>\<open>_computed_renderers_by_data_source()\<close>\<close>

definition view_computed_renderers_by_data_source ::
  "('v, 'n, 'c) SelectToolView \<Rightarrow> error + data_renderer list js_object"
where
  "view_computed_renderers_by_data_source v =
     renderers_by_source_loop (computed_renderers v) []"

text \<open>\<^verbatim>\<open>_select_mode(ev)\<close>; the last branch is \<^verbatim>\<open>unreachable()\<close>, which throws.\<close>

definition view_select_mode ::
  "('v, 'n, 'c) SelectToolView \<Rightarrow> 'a UIEvent_scheme \<Rightarrow> error + SelectionMode"
where
  "view_select_mode v ev =
     (if \<not> shiftKey ev \<and> \<not> ctrlKey ev then Inr (mode (model v))
      else if shiftKey ev \<and> \<not> ctrlKey ev then Inr Append
      else if \<not> shiftKey ev \<and> ctrlKey ev then Inr Intersect
      else if shiftKey ev \<and> ctrlKey ev then Inr Subtract
      else Inl UnreachableCode)"

text \<open>\<^verbatim>\<open>_clear()\<close>\<close>

definition view_clear :: "('v, 'n, 'c) SelectToolView \<Rightarrow> ('v, 'n) call list" where
  "view_clear v =
     map (\<lambda>renderer. Sm_clear (get_selection_manager renderer)) (computed_renderers v) @
     [Request_render]"

text \<open>\<^verbatim>\<open>_keyup(ev)\<close>\<close>

definition view_keyup ::
  "('v, 'n, 'c) SelectToolView \<Rightarrow> 'a KeyEvent_scheme \<Rightarrow> ('v, 'n) call list"
where
  "view_keyup v ev = (if keyCode ev = Keys_Esc then view_clear v else [])"

text \<open>
  The switch of \<^verbatim>\<open>_emit_selection_event\<close>, which computes \<^verbatim>\<open>geometry_data\<close> from the
  default scales \<open>xm\<close> and \<open>ym\<close> of the frame.
\<close>

fun geometry_data :: "'n Scale \<Rightarrow> 'n Scale \<Rightarrow> 'n Geometry \<Rightarrow> 'n GeometryData" where
  "geometry_data xm ym (PointGeometry sx sy) =
     (let x = invert xm sx; y = invert ym sy
      in With_x_y (PointGeometry sx sy) x y)"
| "geometry_data xm ym (SpanGeometry sx sy) =
     (let x = invert xm sx; y = invert ym sy
      in With_x_y (SpanGeometry sx sy) x y)"
| "geometry_data xm ym (RectGeometry sx0 sx1 sy0 sy1) =
     (let (x0, x1) = r_invert xm sx0 sx1; (y0, y1) = r_invert ym sy0 sy1
      in With_x0_y0_x1_y1 (RectGeometry sx0 sx1 sy0 sy1) x0 y0 x1 y1)"
| "geometry_data xm ym (PolyGeometry sx sy) =
     (let x = v_invert xm sx; y = v_invert ym sy
      in With_xs_ys (PolyGeometry sx sy) x y)"

text \<open>
  \<^verbatim>\<open>_emit_selection_event(geometry, final = true)\<close>; \<open>None\<close> is the omitted argument.
\<close>

definition view_emit_selection_event ::
  "('v, 'n, 'c) SelectToolView \<Rightarrow> 'n Geometry \<Rightarrow> bool option \<Rightarrow> ('v, 'n) call list"
where
  "view_emit_selection_event v geometry final_arg =
     (let final = (case final_arg of None \<Rightarrow> True | Some b \<Rightarrow> b);
          xm = xscales_default (frame (plot_view v));
          ym = yscales_default (frame (plot_view v))
      in [Trigger_event (geometry_data xm ym geometry) final])"

text \<open>
  The inner loop of \<^verbatim>\<open>_select\<close>, which fills \<^verbatim>\<open>r_views\<close>:
  \<^verbatim>\<open>if (r.id in this.plot_view.renderer_views) r_views.push(this.plot_view.renderer_views[r.id])\<close>.
\<close>

fun r_views_loop ::
  "'v js_object \<Rightarrow> data_renderer list \<Rightarrow> 'v js_value list \<Rightarrow> 'v js_value list"
where
  "r_views_loop rvs [] r_views = r_views"
| "r_views_loop rvs (r # rs) r_views =
     (if js_in (renderer_id r) rvs
      then r_views_loop rvs rs (r_views @ [js_get rvs (renderer_id r)])
      else r_views_loop rvs rs r_views)"

text \<open>
  The outer loop of \<^verbatim>\<open>_select\<close>, over the groups in the order of \<^verbatim>\<open>for ... in\<close>.
  \<^verbatim>\<open>renderers[0].get_selection_manager()\<close> throws a \<^verbatim>\<open>TypeError\<close> on an empty array.
\<close>

fun select_loop ::
  "('v, 'n, 'c) SelectToolView \<Rightarrow> 'n Geometry \<Rightarrow> bool \<Rightarrow> SelectionMode \<Rightarrow>
   data_renderer list js_object \<Rightarrow> ('v, 'n) run"
where
  "select_loop v geometry final m [] = ([], None)"
| "select_loop v geometry final m ((i, renderers) # groups) =
     (case renderers of
        [] \<Rightarrow> ([], Some TypeError)
      | r0 # _ \<Rightarrow>
          (let sm = get_selection_manager r0;
               r_views = r_views_loop (renderer_views (plot_view v)) renderers [];
               (calls, thrown) = select_loop v geometry final m groups
           in (Sm_select sm r_views geometry final m # calls, thrown)))"

text \<open>\<^verbatim>\<open>_select(geometry, final, mode)\<close>\<close>

definition view_select ::
  "('v, 'n, 'c) SelectToolView \<Rightarrow> 'n Geometry \<Rightarrow> bool \<Rightarrow> SelectionMode \<Rightarrow> ('v, 'n) run"
where
  "view_select v geometry final m =
     (case view_computed_renderers_by_data_source v of
        Inl e \<Rightarrow> ([], Some e)
      | Inr renderers_by_source \<Rightarrow>
          (case select_loop v geometry final m (for_in renderers_by_source) of
             (calls, Some e) \<Rightarrow> (calls, Some e)
           | (calls, None) \<Rightarrow>
               (calls @
                (case callback (model v) of
                   None \<Rightarrow> []
                 | Some c \<Rightarrow> [Emit_callback geometry]) @
                view_emit_selection_event v geometry (Some final),
                None)))"

subsection \<open>The clear signal\<close>

text \<open>
  Modelled from the spec: \<^verbatim>\<open>connect\<close> and \<^verbatim>\<open>emit\<close> of \<^verbatim>\<open>Signal0\<close>. Connecting subscribes
  a listener; emitting calls every subscribed listener, in the order of subscription.
\<close>

definition connect :: "slot list \<Rightarrow> slot \<Rightarrow> slot list" where
  "connect signal s = signal @ [s]"

fun call_slot :: "('v, 'n, 'c) SelectToolView \<Rightarrow> slot \<Rightarrow> ('v, 'n) call list" where
  "call_slot v View_clear = view_clear v"
| "call_slot v (Other_listener n) = [Listener_call n]"

definition emit :: "('v, 'n, 'c) SelectToolView \<Rightarrow> ('v, 'n) call list" where
  "emit v = concat (map (call_slot v) (clear (model v)))"

text \<open>\<^verbatim>\<open>SelectTool.initialize()\<close>: \<^verbatim>\<open>this.clear = new Signal0(this, "clear")\<close>.\<close>

definition initialize :: "'c SelectTool \<Rightarrow> 'c SelectTool" where
  "initialize t = t\<lparr>clear := []\<rparr>"

text \<open>
  \<^verbatim>\<open>SelectToolView.connect_signals()\<close>: \<^verbatim>\<open>this.model.clear.connect(() => this._clear())\<close>.
\<close>

definition connect_signals :: "('v, 'n, 'c) SelectToolView \<Rightarrow> ('v, 'n, 'c) SelectToolView" where
  "connect_signals v = v\<lparr>model := (model v)\<lparr>clear := connect (clear (model v)) View_clear\<rparr>\<rparr>"


subsection \<open>Selection state\<close>

text \<open>
  Modelled from the spec: the effect of the calls on the state a test observes. The
  selection of a data source is a list of indices, kept by its selection manager;
  \<^verbatim>\<open>clear()\<close> of a selection manager (in another file) empties it, and
  \<^verbatim>\<open>request_render()\<close> of the plot view counts as one render request. What the other
  calls do is not described; it is the parameter \<open>ext\<close>.
\<close>

record plot_state =
  selections :: "selection_manager \<Rightarrow> nat list"
  render_requests :: nat

fun perform ::
  "(('v, 'n) call \<Rightarrow> plot_state \<Rightarrow> plot_state) \<Rightarrow> ('v, 'n) call \<Rightarrow> plot_state \<Rightarrow> plot_state"
where
  "perform ext (Sm_clear sm) s = s\<lparr>selections := (selections s)(sm := [])\<rparr>"
| "perform ext Request_render s = s\<lparr>render_requests := Suc (render_requests s)\<rparr>"
| "perform ext c s = ext c s"

definition perform_all ::
  "(('v, 'n) call \<Rightarrow> plot_state \<Rightarrow> plot_state) \<Rightarrow> ('v, 'n) call list \<Rightarrow> plot_state \<Rightarrow> plot_state"
where
  "perform_all ext calls s = foldl (\<lambda>s c. perform ext c s) s calls"

text \<open>
  What the spec observes after a clear: the selection of the data source of every
  computed renderer, and the number of render requests.
\<close>

definition observe ::
  "('v, 'n, 'c) SelectToolView \<Rightarrow> plot_state \<Rightarrow> nat list list \<times> nat"
where
  "observe v s =
     (map (\<lambda>r. selections s (get_selection_manager r)) (computed_renderers v),
      render_requests s)"

subsection \<open>Notions used to state the properties\<close>

text \<open>
  The resolution of the mode as the spec words it, in the table of its section 4.2:
  shift and ctrl both up give the default mode, shift alone \<open>append\<close>, ctrl alone
  \<open>intersect\<close>, both \<open>subtract\<close>.
\<close>

fun spec_resolve_mode :: "bool \<Rightarrow> bool \<Rightarrow> SelectionMode \<Rightarrow> SelectionMode" where
  "spec_resolve_mode False False default_mode = default_mode"
| "spec_resolve_mode True False default_mode = Append"
| "spec_resolve_mode False True default_mode = Intersect"
| "spec_resolve_mode True True default_mode = Subtract"

text \<open>The array stored under a key of an object, empty when the key is absent.\<close>

definition entries :: "'a list js_object \<Rightarrow> string \<Rightarrow> 'a list" where
  "entries obj k = (case map_of obj k of None \<Rightarrow> [] | Some rs \<Rightarrow> rs)"

text \<open>The kinds of calls, and the number of \<^verbatim>\<open>select\<close> calls on one selection manager.\<close>

fun is_select :: "('v, 'n) call \<Rightarrow> bool" where
  "is_select (Sm_select sm views geometry final m) = True"
| "is_select c = False"

fun is_select_on :: "selection_manager \<Rightarrow> ('v, 'n) call \<Rightarrow> bool" where
  "is_select_on sm (Sm_select sm' views geometry final m) = (sm' = sm)"
| "is_select_on sm c = False"

definition select_count :: "selection_manager \<Rightarrow> ('v, 'n) call list \<Rightarrow> nat" where
  "select_count sm calls = length (filter (is_select_on sm) calls)"

fun is_trigger_event :: "('v, 'n) call \<Rightarrow> bool" where
  "is_trigger_event (Trigger_event gd final) = True"
| "is_trigger_event c = False"

fun is_emit_callback :: "('v, 'n) call \<Rightarrow> bool" where
  "is_emit_callback (Emit_callback geometry) = True"
| "is_emit_callback c = False"

text \<open>
  What the inner loop pushes for a group, and the \<^verbatim>\<open>select\<close> call made for a group.
\<close>

definition pushed_views ::
  "('v, 'n, 'c) SelectToolView \<Rightarrow> data_renderer list \<Rightarrow> 'v js_value list"
where
  "pushed_views v rs =
     map (\<lambda>r. js_get (renderer_views (plot_view v)) (renderer_id r))
       (filter (\<lambda>r. js_in (renderer_id r) (renderer_views (plot_view v))) rs)"

definition group_select ::
  "('v, 'n, 'c) SelectToolView \<Rightarrow> 'n Geometry \<Rightarrow> bool \<Rightarrow> SelectionMode \<Rightarrow>
   string \<times> data_renderer list \<Rightarrow> ('v, 'n) call"
where
  "group_select v geometry final m g =
     Sm_select (get_selection_manager (hd (snd g))) (pushed_views v (snd g)) geometry final m"

subsection \<open>A scenario\<close>

text \<open>
  The scenario of the spec: the glyph renderers \<open>A\<close> and \<open>B\<close> share the data source
  \<open>S\<close>, the renderer \<open>C\<close> draws the data source \<open>T\<close>. A graph renderer on \<open>S\<close>, a data
  renderer of another kind and a glyph renderer whose data source is named
  \<open>constructor\<close> are added. \<open>B\<close> has no view yet. The x scale doubles and the y scale
  negates; their range inversions order the two ends.
\<close>

definition renderer_A :: data_renderer where
  "renderer_A = Glyph (GlyphRenderer ''A'' (DataSource ''S''))"

definition renderer_B :: data_renderer where
  "renderer_B = Glyph (GlyphRenderer ''B'' (DataSource ''S''))"

definition renderer_C :: data_renderer where
  "renderer_C = Glyph (GlyphRenderer ''C'' (DataSource ''T''))"

definition renderer_G :: data_renderer where
  "renderer_G = Graph ''G'' (GlyphRenderer ''N'' (DataSource ''S''))"

definition renderer_O :: data_renderer where
  "renderer_O = OtherDataRenderer ''O'' (SelectionManager (DataSource ''U''))"

definition renderer_X :: data_renderer where
  "renderer_X = Glyph (GlyphRenderer ''X'' (DataSource ''constructor''))"

definition scale_double :: "int Scale" where
  "scale_double =
     \<lparr>invert = (\<lambda>s. 2 * s), r_invert = (\<lambda>a b. (2 * min a b, 2 * max a b)),
      v_invert = map (\<lambda>s. 2 * s)\<rparr>"

definition scale_negate :: "int Scale" where
  "scale_negate =
     \<lparr>invert = (\<lambda>s. - s), r_invert = (\<lambda>a b. (min (- a) (- b), max (- a) (- b))),
      v_invert = map (\<lambda>s. - s)\<rparr>"

definition scenario_views :: "string js_object" where
  "scenario_views = [(''A'', ''view of A''), (''C'', ''view of C''), (''G'', ''view of G'')]"

definition scenario :: "(string, int, unit) SelectToolView" where
  "scenario =
     \<lparr>model = \<lparr>mode = Replace, callback = Some (), clear = [View_clear]\<rparr>,
      plot_view =
        \<lparr>frame = \<lparr>xscales_default = scale_double, yscales_default = scale_negate\<rparr>,
         renderer_views = scenario_views\<rparr>,
      computed_renderers = [renderer_A, renderer_O, renderer_C, renderer_B, renderer_G]\<rparr>"

definition esc_event :: KeyEvent where
  "esc_event = \<lparr>keyCode = 27\<rparr>"

text \<open>
  The scenario with two more listeners on the clear signal: the tool is initialized, a
  listener \<open>toolbar\<close> connects, then the view (\<^verbatim>\<open>connect_signals\<close>), then a listener
  \<open>log\<close>. A state in which every data source has a selection, and collaborators whose
  other calls leave that state alone.
\<close>

definition connect_listener ::
  "('v, 'n, 'c) SelectToolView \<Rightarrow> string \<Rightarrow> ('v, 'n, 'c) SelectToolView"
where
  "connect_listener v n =
     v\<lparr>model := (model v)\<lparr>clear := connect (clear (model v)) (Other_listener n)\<rparr>\<rparr>"

definition scenario_listeners :: "(string, int, unit) SelectToolView" where
  "scenario_listeners =
     connect_listener
       (connect_signals
          (connect_listener (scenario\<lparr>model := initialize (model scenario)\<rparr>) ''toolbar''))
       ''log''"

definition selected_state :: plot_state where
  "selected_state = \<lparr>selections = (\<lambda>sm. [1, 2]), render_requests = 0\<rparr>"

definition no_effect :: "(string, int) call \<Rightarrow> plot_state \<Rightarrow> plot_state" where
  "no_effect c s = s"

text \<open>
  The scenario with the renderer of the data source named \<open>constructor\<close> between \<open>A\<close>
  and \<open>C\<close>.
\<close>

definition scenario_inherited :: "(string, int, unit) SelectToolView" where
  "scenario_inherited = scenario\<lparr>computed_renderers := [renderer_A, renderer_X, renderer_C]\<rparr>"

text \<open>
  The scenario with \<open>A\<close> and a second glyph renderer on \<open>S\<close> whose own id is
  \<open>constructor\<close> and which has no view.
\<close>

definition renderer_K :: data_renderer where
  "renderer_K = Glyph (GlyphRenderer ''constructor'' (DataSource ''S''))"

definition scenario_unviewed :: "(string, int, unit) SelectToolView" where
  "scenario_unviewed = scenario\<lparr>computed_renderers := [renderer_A, renderer_K]\<rparr>"

text \<open>
  A listener of the clear signal that requests a render, and the scenario with the view
  connected a second time.
\<close>

fun rendering_listener :: "(string, int) call \<Rightarrow> plot_state \<Rightarrow> plot_state" where
  "rendering_listener (Listener_call n) s = s\<lparr>render_requests := Suc (render_requests s)\<rparr>"
| "rendering_listener c s = s"

definition scenario_twice :: "(string, int, unit) SelectToolView" where
  "scenario_twice = connect_signals scenario"

section \<open>Properties\<close>

subsection \<open>Objects\<close>

lemma push_at_keys: "push_at obj k r = Inr obj' \<Longrightarrow> map fst obj' = map fst obj"
  by (auto simp: push_at_def split: if_splits)

lemma map_of_push:
  "map_of (map (\<lambda>(k', rs). if k' = k then (k', rs @ [r]) else (k', rs)) obj) k' =
   (if k' = k then map_option (\<lambda>rs. rs @ [r]) (map_of obj k) else map_of obj k')"
  by (induction obj) auto

lemma push_at_lookup:
  "push_at obj k r = Inr obj' \<Longrightarrow>
   map_of obj' k' = (if k' = k then map_option (\<lambda>rs. rs @ [r]) (map_of obj k) else map_of obj k')"
  by (auto simp: push_at_def map_of_push split: if_splits)

lemma push_at_own:
  "has_own k obj \<Longrightarrow>
   push_at obj k r = Inr (map (\<lambda>(k', rs). if k' = k then (k', rs @ [r]) else (k', rs)) obj)"
  unfolding push_at_def by (rule if_P)

lemma loop_keys_distinct:
  "renderers_by_source_loop rs obj = Inr obj' \<Longrightarrow> distinct (map fst obj) \<Longrightarrow> distinct (map fst obj')"
proof (induction rs arbitrary: obj)
  case Nil
  then show ?case by simp
next
  case (Cons r rs)
  show ?case
  proof (cases "source_id r")
    case None
    with Cons show ?thesis by simp
  next
    case (Some sid)
    let ?obj1 = "if \<not> js_in sid obj then obj @ [(sid, [])] else obj"
    from Cons.prems(1) Some obtain obj2 where
      p: "push_at ?obj1 sid r = Inr obj2" and l: "renderers_by_source_loop rs obj2 = Inr obj'"
      by (auto simp: Let_def split: sum.splits)
    have "distinct (map fst ?obj1)"
      using Cons.prems(2) by (auto simp: js_in_def has_own_def split: if_splits)
    with push_at_keys[OF p] have "distinct (map fst obj2)" by simp
    with Cons.IH[OF l] show ?thesis .
  qed
qed

lemma loop_lookup:
  "renderers_by_source_loop rs obj = Inr obj' \<Longrightarrow>
   map_of obj' k =
     (if k \<in> fst ` set obj \<or> (\<exists>r\<in>set rs. source_id r = Some k)
      then Some (entries obj k @ filter (\<lambda>r. source_id r = Some k) rs) else None)"
proof (induction rs arbitrary: obj)
  case Nil
  then show ?case by (auto simp: entries_def map_of_eq_None_iff split: option.splits)
next
  case (Cons r rs)
  show ?case
  proof (cases "source_id r")
    case None
    with Cons show ?thesis by simp
  next
    case (Some sid)
    let ?obj1 = "if \<not> js_in sid obj then obj @ [(sid, [])] else obj"
    from Cons.prems(1) Some obtain obj2 where
      p: "push_at ?obj1 sid r = Inr obj2" and l: "renderers_by_source_loop rs obj2 = Inr obj'"
      by (auto simp: Let_def split: sum.splits)
    have own: "has_own sid ?obj1" using p by (auto simp: push_at_def split: if_splits)
    have keys2: "fst ` set obj2 = insert sid (fst ` set obj)"
    proof -
      have "fst ` set obj2 = set (map fst obj2)" by simp
      also have "\<dots> = set (map fst ?obj1)" using push_at_keys[OF p] by simp
      also have "\<dots> = insert sid (fst ` set obj)"
        using own by (auto simp: has_own_def split: if_splits)
      finally show ?thesis .
    qed
    have none_iff: "\<And>k'. (map_of obj k' = None) = (k' \<notin> fst ` set obj)"
      by (simp add: map_of_eq_None_iff)
    have m1: "\<And>k'. map_of ?obj1 k' = (if k' = sid \<and> \<not> js_in sid obj then Some [] else map_of obj k')"
    proof -
      fix k'
      show "map_of ?obj1 k' = (if k' = sid \<and> \<not> js_in sid obj then Some [] else map_of obj k')"
      proof (cases "js_in sid obj")
        case True
        then show ?thesis by simp
      next
        case False
        then have "map_of obj sid = None"
          unfolding none_iff by (auto simp: js_in_def has_own_def split: if_splits)
        with False show ?thesis
          by (auto simp: map_add_def split: option.splits)
      qed
    qed
    have m0: "\<not> js_in sid obj \<Longrightarrow> map_of obj sid = None"
      unfolding none_iff by (auto simp: js_in_def has_own_def split: if_splits)
    have m1s: "map_of ?obj1 sid \<noteq> None"
      using own by (simp add: has_own_def map_of_eq_None_iff del: map_of_append)
    have e2: "entries obj2 k = (if k = sid then entries obj k @ [r] else entries obj k)"
      using m1s m0 unfolding entries_def push_at_lookup[OF p] m1
      by (auto split: option.splits if_splits)
    show ?thesis
      unfolding Cons.IH[OF l] keys2 e2 using Some by auto
  qed
qed


lemma loop_returns:
  "\<forall>r\<in>set rs. \<forall>k. source_id r = Some k \<longrightarrow> k \<notin> set Object_prototype_keys \<Longrightarrow>
   \<exists>obj'. renderers_by_source_loop rs obj = Inr obj'"
proof (induction rs arbitrary: obj)
  case Nil
  then show ?case by simp
next
  case (Cons r rs)
  show ?case
  proof (cases "source_id r")
    case None
    with Cons show ?thesis by simp
  next
    case (Some sid)
    let ?obj1 = "if \<not> js_in sid obj then obj @ [(sid, [])] else obj"
    have "sid \<notin> set Object_prototype_keys" using Cons.prems Some by simp
    then have "has_own sid ?obj1" by (auto simp: js_in_def has_own_def)
    then obtain obj2 where p: "push_at ?obj1 sid r = Inr obj2"
      using push_at_own[of sid ?obj1 r] by blast
    from Cons.IH[of obj2] Cons.prems obtain obj' where "renderers_by_source_loop rs obj2 = Inr obj'"
      by auto
    with p Some show ?thesis by (simp add: Let_def)
  qed
qed

lemma loop_throws:
  "r \<in> set rs \<Longrightarrow> source_id r = Some k \<Longrightarrow> k \<in> set Object_prototype_keys \<Longrightarrow>
   set (map fst obj) \<inter> set Object_prototype_keys = {} \<Longrightarrow>
   renderers_by_source_loop rs obj = Inl TypeError"
proof (induction rs arbitrary: obj)
  case Nil
  then show ?case by simp
next
  case (Cons a rs)
  show ?case
  proof (cases "source_id a")
    case None
    with Cons show ?thesis by auto
  next
    case (Some sid)
    let ?obj1 = "if \<not> js_in sid obj then obj @ [(sid, [])] else obj"
    show ?thesis
    proof (cases "sid \<in> set Object_prototype_keys")
      case True
      then have "\<not> has_own sid ?obj1"
        using Cons.prems(4) by (auto simp: js_in_def has_own_def)
      then have "push_at ?obj1 sid a = Inl TypeError" by (simp add: push_at_def)
      with Some show ?thesis by (simp add: Let_def)
    next
      case False
      then have own: "has_own sid ?obj1" by (auto simp: js_in_def has_own_def)
      then obtain obj2 where p: "push_at ?obj1 sid a = Inr obj2"
        using push_at_own[of sid ?obj1 a] by blast
      have "set (map fst obj2) = set (map fst ?obj1)" using push_at_keys[OF p] by simp
      with False Cons.prems(4) have d: "set (map fst obj2) \<inter> set Object_prototype_keys = {}"
        by (auto split: if_splits)
      from False Some Cons.prems(1,2,3) have "r \<in> set rs" by auto
      from Cons.IH[OF this Cons.prems(2,3) d] p Some show ?thesis by (simp add: Let_def)
    qed
  qed
qed

lemma source_id_manager:
  "source_id r = Some k \<Longrightarrow> get_selection_manager r = SelectionManager (DataSource k)"
  by (cases r) auto

lemma groups_facts:
  assumes "view_computed_renderers_by_data_source v = Inr obj"
  shows "distinct (map fst obj)"
    and "(k, rs) \<in> set obj \<Longrightarrow> rs = filter (\<lambda>r. source_id r = Some k) (computed_renderers v)"
    and "(k, rs) \<in> set obj \<Longrightarrow> rs \<noteq> []"
    and "fst ` set obj = {k. \<exists>r\<in>set (computed_renderers v). source_id r = Some k}"
proof -
  let ?crs = "computed_renderers v"
  from assms have l: "renderers_by_source_loop ?crs [] = Inr obj"
    by (simp add: view_computed_renderers_by_data_source_def)
  show d: "distinct (map fst obj)" using loop_keys_distinct[OF l] by simp
  have m: "\<And>k. map_of obj k =
     (if \<exists>r\<in>set ?crs. source_id r = Some k
      then Some (filter (\<lambda>r. source_id r = Some k) ?crs) else None)"
    using loop_lookup[OF l] by (simp add: entries_def)
  show keys: "fst ` set obj = {k. \<exists>r\<in>set ?crs. source_id r = Some k}"
  proof (rule set_eqI)
    fix k
    have "(k \<in> fst ` set obj) = (map_of obj k \<noteq> None)"
      by (simp add: map_of_eq_None_iff)
    also have "\<dots> = (\<exists>r\<in>set ?crs. source_id r = Some k)"
      unfolding m by simp
    finally show "(k \<in> fst ` set obj) = (k \<in> {k. \<exists>r\<in>set ?crs. source_id r = Some k})"
      by simp
  qed
  {
    assume kr: "(k, rs) \<in> set obj"
    then have "map_of obj k = Some rs" using d by simp
    then have ex: "\<exists>r\<in>set ?crs. source_id r = Some k" and eq: "rs = filter (\<lambda>r. source_id r = Some k) ?crs"
      unfolding m by (auto split: if_splits)
    show "rs = filter (\<lambda>r. source_id r = Some k) ?crs" by (rule eq)
    from ex show "rs \<noteq> []" unfolding eq by (auto simp: filter_empty_conv)
  }
qed

lemma mset_for_in: "mset (for_in obj) = mset obj"
  by (simp add: for_in_def)

lemma set_for_in: "set (for_in obj) = set obj"
  using mset_for_in[of obj] by (metis set_mset_mset)

lemma length_for_in: "length (for_in obj) = length obj"
  using mset_for_in[of obj] by (metis size_mset)

lemma distinct_for_in: "distinct (map fst obj) \<Longrightarrow> distinct (map fst (for_in obj))"
proof -
  have "mset (map fst (for_in obj)) = mset (map fst obj)"
    using mset_for_in[of obj] by (metis mset_map)
  then show "distinct (map fst obj) \<Longrightarrow> distinct (map fst (for_in obj))"
    by (metis mset_eq_imp_distinct_iff)
qed

lemma r_views_loop_eq:
  "r_views_loop rvs rs acc =
   acc @ map (\<lambda>r. js_get rvs (renderer_id r)) (filter (\<lambda>r. js_in (renderer_id r) rvs) rs)"
  by (induction rs arbitrary: acc) auto

lemma select_loop_eq:
  "\<forall>g\<in>set groups. snd g \<noteq> [] \<Longrightarrow>
   select_loop v geometry final m groups =
     (map (group_select v geometry final m) groups, None)"
  by (induction groups)
     (auto simp: r_views_loop_eq group_select_def pushed_views_def Let_def split: list.splits)

subsection \<open>Mode resolution\<close>

text \<open>
  Claim C2. \<^verbatim>\<open>_select_mode\<close> never reaches \<^verbatim>\<open>unreachable()\<close>, and its result is the one
  the table of the spec gives for the two flags \<^verbatim>\<open>shiftKey\<close> and \<^verbatim>\<open>ctrlKey\<close> of the event
  and the mode of the tool: the mode of the tool when both flags are off, \<open>append\<close> for
  shift alone, \<open>intersect\<close> for ctrl alone, \<open>subtract\<close> for both. It holds for every
  default mode, every event (whatever its other fields hold) and every view, so nothing
  else has a part in the result.
\<close>

theorem select_mode_is_the_table:
  "view_select_mode v ev = Inr (spec_resolve_mode (shiftKey ev) (ctrlKey ev) (mode (model v)))"
  by (cases "shiftKey ev"; cases "ctrlKey ev") (simp_all add: view_select_mode_def)

subsection \<open>Conversion of the geometry to data space\<close>

text \<open>
  Claim C4. \<^verbatim>\<open>_emit_selection_event\<close> converts by the shape of the geometry. For a point
  and for a span it adds \<open>x = xm.invert(sx)\<close> and \<open>y = ym.invert(sy)\<close>, each a scalar
  inversion through one scale. For a rect it adds \<open>x0, x1\<close>, the pair \<open>xm.r_invert(sx0, sx1)\<close>,
  and \<open>y0, y1\<close>, the pair \<open>ym.r_invert(sy0, sy1)\<close>; the scalar inversion has no part in it
  (replacing \<open>invert\<close> in both scales changes nothing). For a poly it adds the sequences
  \<open>xm.v_invert(sx)\<close> and \<open>ym.v_invert(sy)\<close>.
\<close>

theorem emit_selection_event_by_shape:
  "view_emit_selection_event v (PointGeometry sx sy) (Some final) =
     [Trigger_event
        (With_x_y (PointGeometry sx sy)
           (invert (xscales_default (frame (plot_view v))) sx)
           (invert (yscales_default (frame (plot_view v))) sy)) final] \<and>
   view_emit_selection_event v (SpanGeometry sx sy) (Some final) =
     [Trigger_event
        (With_x_y (SpanGeometry sx sy)
           (invert (xscales_default (frame (plot_view v))) sx)
           (invert (yscales_default (frame (plot_view v))) sy)) final] \<and>
   view_emit_selection_event v (RectGeometry sx0 sx1 sy0 sy1) (Some final) =
     [Trigger_event
        (With_x0_y0_x1_y1 (RectGeometry sx0 sx1 sy0 sy1)
           (fst (r_invert (xscales_default (frame (plot_view v))) sx0 sx1))
           (fst (r_invert (yscales_default (frame (plot_view v))) sy0 sy1))
           (snd (r_invert (xscales_default (frame (plot_view v))) sx0 sx1))
           (snd (r_invert (yscales_default (frame (plot_view v))) sy0 sy1))) final] \<and>
   view_emit_selection_event v (PolyGeometry sxs sys) (Some final) =
     [Trigger_event
        (With_xs_ys (PolyGeometry sxs sys)
           (v_invert (xscales_default (frame (plot_view v))) sxs)
           (v_invert (yscales_default (frame (plot_view v))) sys)) final] \<and>
   geometry_data (xm\<lparr>invert := f\<rparr>) (ym\<lparr>invert := g\<rparr>) (RectGeometry sx0 sx1 sy0 sy1) =
     geometry_data xm ym (RectGeometry sx0 sx1 sy0 sy1)"
  by (simp add: view_emit_selection_event_def Let_def split: prod.splits)

subsection \<open>The grouping as a partition\<close>

lemma push_concat:
  "distinct (map fst obj) \<Longrightarrow>
   mset (concat (map snd (map (\<lambda>(k', rs). if k' = k then (k', rs @ [r]) else (k', rs)) obj))) =
   mset (concat (map snd obj)) + (if k \<in> fst ` set obj then {#r#} else {#})"
  by (induction obj) (auto simp: image_iff)

lemma push_at_concat:
  assumes "push_at obj k r = Inr obj'" and "distinct (map fst obj)"
  shows "mset (concat (map snd obj')) = mset (concat (map snd obj)) + {#r#}"
proof -
  from assms(1) have own: "k \<in> fst ` set obj"
    and eq: "obj' = map (\<lambda>(k', rs). if k' = k then (k', rs @ [r]) else (k', rs)) obj"
    by (auto simp: push_at_def has_own_def split: if_splits)
  show ?thesis unfolding eq push_concat[OF assms(2)] using own by simp
qed

lemma loop_concat:
  "renderers_by_source_loop rs obj = Inr obj' \<Longrightarrow> distinct (map fst obj) \<Longrightarrow>
   mset (concat (map snd obj')) =
   mset (concat (map snd obj)) + mset (filter (\<lambda>r. source_id r \<noteq> None) rs)"
proof (induction rs arbitrary: obj)
  case Nil
  then show ?case by simp
next
  case (Cons r rs)
  show ?case
  proof (cases "source_id r")
    case None
    with Cons show ?thesis by simp
  next
    case (Some sid)
    let ?obj1 = "if \<not> js_in sid obj then obj @ [(sid, [])] else obj"
    from Cons.prems(1) Some obtain obj2 where
      p: "push_at ?obj1 sid r = Inr obj2" and l: "renderers_by_source_loop rs obj2 = Inr obj'"
      by (auto simp: Let_def split: sum.splits)
    have d1: "distinct (map fst ?obj1)"
      using Cons.prems(2) by (auto simp: js_in_def has_own_def split: if_splits)
    with push_at_keys[OF p] have d2: "distinct (map fst obj2)" by simp
    have "mset (concat (map snd obj2)) = mset (concat (map snd ?obj1)) + {#r#}"
      by (rule push_at_concat[OF p d1])
    also have "mset (concat (map snd ?obj1)) = mset (concat (map snd obj))" by simp
    finally show ?thesis using Cons.IH[OF l d2] Some by simp
  qed
qed

lemma grouping_partitions:
  assumes "\<forall>r\<in>set (computed_renderers v). \<forall>k.
             source_id r = Some k \<longrightarrow> k \<notin> set Object_prototype_keys"
  shows "\<exists>obj. view_computed_renderers_by_data_source v = Inr obj \<and>
     distinct (map fst obj) \<and>
     mset (concat (map snd obj)) =
       mset (filter (\<lambda>r. source_id r \<noteq> None) (computed_renderers v)) \<and>
     (\<forall>(k, rs)\<in>set obj.
        rs = filter (\<lambda>r. source_id r = Some k) (computed_renderers v)) \<and>
     fst ` set obj = {k. \<exists>r\<in>set (computed_renderers v). source_id r = Some k}"
proof -
  from loop_returns[OF assms, of "[]"] obtain obj where
    l: "renderers_by_source_loop (computed_renderers v) [] = Inr obj" by blast
  then have g: "view_computed_renderers_by_data_source v = Inr obj"
    by (simp add: view_computed_renderers_by_data_source_def)
  have "mset (concat (map snd obj)) =
       mset (filter (\<lambda>r. source_id r \<noteq> None) (computed_renderers v))"
    using loop_concat[OF l] by simp
  moreover have "\<forall>(k, rs)\<in>set obj.
        rs = filter (\<lambda>r. source_id r = Some k) (computed_renderers v)"
    using groups_facts(2)[OF g] by blast
  ultimately show ?thesis using g groups_facts(1,4)[OF g] by blast
qed

lemma grouping_throws:
  assumes "r \<in> set (computed_renderers v)" and "source_id r = Some k"
    and "k \<in> set Object_prototype_keys"
  shows "view_computed_renderers_by_data_source v = Inl TypeError"
  unfolding view_computed_renderers_by_data_source_def
  by (rule loop_throws[OF assms]) simp

text \<open>
  Claim C3 says that \<^verbatim>\<open>_computed_renderers_by_data_source\<close> partitions every sequence of
  renderers. The lemma \<open>grouping_partitions\<close> above shows it for the sequences in which no
  data source is named like a property of \<^verbatim>\<open>Object.prototype\<close>. Here the data source of
  the second renderer is named \<open>constructor\<close>: \<^verbatim>\<open>"constructor" in renderers_by_source\<close>
  holds of the object literal, so no array is stored, and
  \<^verbatim>\<open>renderers_by_source["constructor"].push(r)\<close> throws a \<^verbatim>\<open>TypeError\<close>. No grouping is
  produced.
\<close>

theorem grouping_throws_on_inherited_key:
  "view_computed_renderers_by_data_source scenario_inherited = Inl TypeError"
  by (simp add: view_computed_renderers_by_data_source_def scenario_inherited_def scenario_def
      renderer_A_def renderer_X_def renderer_C_def
      js_in_def has_own_def push_at_def Object_prototype_keys_def)

subsection \<open>The calls of a selection\<close>

lemma select_throws:
  "view_computed_renderers_by_data_source v = Inl e \<Longrightarrow>
   view_select v geometry final m = ([], Some e)"
  by (simp add: view_select_def)

lemma select_returns:
  assumes "view_computed_renderers_by_data_source v = Inr obj"
  shows "view_select v geometry final m =
    (map (group_select v geometry final m) (for_in obj) @
     (case callback (model v) of None \<Rightarrow> [] | Some c \<Rightarrow> [Emit_callback geometry]) @
     [Trigger_event
        (geometry_data (xscales_default (frame (plot_view v)))
           (yscales_default (frame (plot_view v))) geometry) final],
     None)"
proof -
  have "\<forall>g\<in>set (for_in obj). snd g \<noteq> []"
    using groups_facts(3)[OF assms] by (auto simp: set_for_in)
  from select_loop_eq[OF this, of v geometry final m]
  have "select_loop v geometry final m (for_in obj) =
          (map (group_select v geometry final m) (for_in obj), None)" .
  with assms show ?thesis
    by (simp add: view_select_def view_emit_selection_event_def Let_def)
qed

lemma count_distinct_key:
  "distinct (map f xs) \<Longrightarrow>
   length (filter (\<lambda>x. f x = a) xs) = (if a \<in> f ` set xs then 1 else 0)"
  by (induction xs) auto

lemma group_manager:
  assumes "view_computed_renderers_by_data_source v = Inr obj" and "g \<in> set obj"
  shows "get_selection_manager (hd (snd g)) = SelectionManager (DataSource (fst g))"
proof -
  obtain k rs where g: "g = (k, rs)" by (cases g)
  from groups_facts(2,3)[OF assms(1), of k rs] assms(2) g
  have ne: "rs \<noteq> []" and eq: "rs = filter (\<lambda>r. source_id r = Some k) (computed_renderers v)"
    by auto
  from ne have "hd rs \<in> set rs" by simp
  with eq have "source_id (hd rs) = Some k" by (metis (mono_tags, lifting) mem_Collect_eq set_filter)
  then show ?thesis using g by (simp add: source_id_manager)
qed

lemma select_count_returns:
  assumes "view_computed_renderers_by_data_source v = Inr obj"
  shows "select_count sm (fst (view_select v geometry final m)) =
    (if sm \<in> (\<lambda>g. SelectionManager (DataSource (fst g))) ` set obj then 1 else 0)"
proof -
  let ?key = "\<lambda>g::string \<times> data_renderer list. SelectionManager (DataSource (fst g))"
  have "filter (is_select_on sm) (map (group_select v geometry final m) (for_in obj)) =
        map (group_select v geometry final m) (filter (\<lambda>g. ?key g = sm) (for_in obj))"
    unfolding filter_map
    by (rule arg_cong[where f = "map (group_select v geometry final m)"], rule filter_cong)
       (auto simp: group_select_def set_for_in group_manager[OF assms])
  then have "select_count sm (fst (view_select v geometry final m)) =
        length (filter (\<lambda>g. ?key g = sm) (for_in obj))"
    by (simp add: select_returns[OF assms] select_count_def split: option.splits)
  also have "\<dots> = (if sm \<in> ?key ` set (for_in obj) then 1 else 0)"
  proof (rule count_distinct_key)
    have "distinct (map (\<lambda>k. SelectionManager (DataSource k)) (map fst (for_in obj)))"
      by (rule iffD2[OF distinct_map])
         (simp add: distinct_for_in[OF groups_facts(1)[OF assms]] inj_on_def)
    then show "distinct (map ?key (for_in obj))" by (simp add: comp_def)
  qed
  finally show ?thesis by (simp add: set_for_in)
qed

text \<open>
  Claim C1. In one call of \<^verbatim>\<open>_select\<close>, whether it returns or throws, \<^verbatim>\<open>select\<close> is
  called at most once on any selection manager, however many of the computed renderers
  share its data source. When the call returns, the selection manager of the data source
  of every computed glyph or graph renderer is called exactly once.
\<close>

theorem select_once_per_data_source:
  "select_count sm (fst (view_select v geometry final m)) \<le> 1 \<and>
   (snd (view_select v geometry final m) = None \<and> r \<in> set (computed_renderers v) \<and>
    source_id r = Some k \<longrightarrow>
    select_count (SelectionManager (DataSource k)) (fst (view_select v geometry final m)) = 1)"
proof (cases "view_computed_renderers_by_data_source v")
  case (Inl e)
  then show ?thesis by (simp add: select_throws select_count_def)
next
  case (Inr obj)
  have "r \<in> set (computed_renderers v) \<Longrightarrow> source_id r = Some k \<Longrightarrow>
        SelectionManager (DataSource k) \<in> (\<lambda>g. SelectionManager (DataSource (fst g))) ` set obj"
  proof -
    assume "r \<in> set (computed_renderers v)" "source_id r = Some k"
    then have "k \<in> fst ` set obj" unfolding groups_facts(4)[OF Inr] by blast
    then show ?thesis by auto
  qed
  then show ?thesis unfolding select_count_returns[OF Inr] by auto
qed

theorem select_once_per_data_source_witness:
  "snd (view_select scenario (PointGeometry 5 5) True Intersect) = None \<and>
   renderer_B \<in> set (computed_renderers scenario) \<and> source_id renderer_B = Some ''S'' \<and>
   select_count (SelectionManager (DataSource ''S''))
     (fst (view_select scenario (PointGeometry 5 5) True Intersect)) = 1"
proof -
  have run: "snd (view_select scenario (PointGeometry 5 5) True Intersect) = None"
    by (simp add: view_select_def view_computed_renderers_by_data_source_def scenario_def
        renderer_A_def renderer_B_def renderer_C_def renderer_G_def renderer_O_def
        js_in_def has_own_def push_at_def Object_prototype_keys_def for_in_def
        is_array_index_def is_digit_def view_emit_selection_event_def)
  have mem: "renderer_B \<in> set (computed_renderers scenario)" by (simp add: scenario_def)
  have sid: "source_id renderer_B = Some ''S''" by (simp add: renderer_B_def)
  from select_once_per_data_source[of "SelectionManager (DataSource ''S'')" scenario
      "PointGeometry 5 5" True Intersect renderer_B "''S''"] run mem sid
  show ?thesis by simp
qed


lemma select_calls_returns:
  assumes "view_computed_renderers_by_data_source v = Inr obj"
  shows "filter is_select (fst (view_select v geometry final m)) =
         map (group_select v geometry final m) (for_in obj)"
proof -
  from select_returns[OF assms, of geometry final m]
  have "filter is_select (fst (view_select v geometry final m)) =
        filter is_select (map (group_select v geometry final m) (for_in obj))"
    by (simp split: option.splits)
  also have "\<dots> = map (group_select v geometry final m) (for_in obj)"
    by (simp add: filter_map comp_def group_select_def)
  finally show ?thesis .
qed

lemma select_calls_per_group:
  assumes "view_computed_renderers_by_data_source v = Inr obj"
  shows "filter is_select (fst (view_select v geometry final m)) =
      map (\<lambda>(k, rs).
             Sm_select (get_selection_manager (hd rs))
               (map (\<lambda>r. js_get (renderer_views (plot_view v)) (renderer_id r))
                  (filter (\<lambda>r. js_in (renderer_id r) (renderer_views (plot_view v))) rs))
               geometry final m)
        (for_in obj) \<and>
    (\<forall>(k, rs)\<in>set obj.
       rs \<noteq> [] \<and> rs = filter (\<lambda>r. source_id r = Some k) (computed_renderers v)) \<and>
    view_computed_renderers_by_data_source (v\<lparr>plot_view := pv\<rparr>) = Inr obj \<and>
    length (filter is_select (fst (view_select (v\<lparr>plot_view := pv\<rparr>) geometry final m))) =
      length obj"
proof (intro conjI)
  show indep: "view_computed_renderers_by_data_source (v\<lparr>plot_view := pv\<rparr>) = Inr obj"
    using assms by (simp add: view_computed_renderers_by_data_source_def)
  show "filter is_select (fst (view_select v geometry final m)) =
      map (\<lambda>(k, rs).
             Sm_select (get_selection_manager (hd rs))
               (map (\<lambda>r. js_get (renderer_views (plot_view v)) (renderer_id r))
                  (filter (\<lambda>r. js_in (renderer_id r) (renderer_views (plot_view v))) rs))
               geometry final m)
        (for_in obj)"
    unfolding select_calls_returns[OF assms]
    by (rule map_cong) (auto simp: group_select_def pushed_views_def)
  show "\<forall>(k, rs)\<in>set obj.
       rs \<noteq> [] \<and> rs = filter (\<lambda>r. source_id r = Some k) (computed_renderers v)"
    using groups_facts(2,3)[OF assms] by blast
  show "length (filter is_select (fst (view_select (v\<lparr>plot_view := pv\<rparr>) geometry final m))) =
      length obj"
    unfolding select_calls_returns[OF indep] by (simp add: length_for_in)
qed

lemma pushed_views_live:
  assumes "\<forall>r\<in>set rs. renderer_id r \<notin> set Object_prototype_keys"
  shows "pushed_views v rs =
     map (\<lambda>r. Own_value (the (map_of (renderer_views (plot_view v)) (renderer_id r))))
       (filter (\<lambda>r. map_of (renderer_views (plot_view v)) (renderer_id r) \<noteq> None) rs)"
proof -
  let ?rvs = "renderer_views (plot_view v)"
  have own: "\<And>k. has_own k ?rvs = (map_of ?rvs k \<noteq> None)"
    by (simp add: has_own_def map_of_eq_None_iff)
  have f: "filter (\<lambda>r. js_in (renderer_id r) ?rvs) rs =
           filter (\<lambda>r. map_of ?rvs (renderer_id r) \<noteq> None) rs"
    by (rule filter_cong) (use assms in \<open>auto simp: js_in_def own\<close>)
  show ?thesis
    unfolding pushed_views_def f
    by (rule map_cong) (auto simp: js_get_def)
qed

lemma scenario_groups:
  "view_computed_renderers_by_data_source scenario =
     Inr [(''S'', [renderer_A, renderer_B, renderer_G]), (''T'', [renderer_C])]"
  by (simp add: view_computed_renderers_by_data_source_def scenario_def
      renderer_A_def renderer_B_def renderer_C_def renderer_G_def renderer_O_def
      js_in_def has_own_def push_at_def Object_prototype_keys_def)

lemma for_in_scenario_groups:
  "for_in [(''S'', [renderer_A, renderer_B, renderer_G]), (''T'', [renderer_C])] =
     [(''S'', [renderer_A, renderer_B, renderer_G]), (''T'', [renderer_C])]"
  by (simp add: for_in_def is_array_index_def is_digit_def)

lemma scenario_unviewed_groups:
  "view_computed_renderers_by_data_source scenario_unviewed =
     Inr [(''S'', [renderer_A, renderer_K])]"
  by (simp add: view_computed_renderers_by_data_source_def scenario_unviewed_def scenario_def
      renderer_A_def renderer_K_def
      js_in_def has_own_def push_at_def Object_prototype_keys_def)

text \<open>
  Claim C7 says that the view list passed to \<^verbatim>\<open>select\<close> holds exactly the renderers of the
  group that have a view. The lemmas \<open>select_calls_per_group\<close> and \<open>pushed_views_live\<close>
  above show it for the groups in which no renderer is named like a property of
  \<^verbatim>\<open>Object.prototype\<close>. Here the second renderer of the group of \<open>S\<close> has the id
  \<open>constructor\<close> and no view: \<^verbatim>\<open>"constructor" in this.plot_view.renderer_views\<close> holds
  all the same, and what is pushed and passed to \<^verbatim>\<open>select\<close> beside the view of \<open>A\<close> is
  the inherited member \<^verbatim>\<open>renderer_views["constructor"]\<close>, which is no view.
\<close>

theorem select_passes_inherited_member_as_view:
  "map_of (renderer_views (plot_view scenario_unviewed)) ''constructor'' = None \<and>
   view_computed_renderers_by_data_source scenario_unviewed =
     Inr [(''S'', [renderer_A, renderer_K])] \<and>
   filter is_select (fst (view_select scenario_unviewed (PointGeometry 5 5) True Intersect)) =
     [Sm_select (SelectionManager (DataSource ''S''))
        [Own_value ''view of A'', Inherited_member ''constructor'']
        (PointGeometry 5 5) True Intersect]"
proof -
  have views: "renderer_views (plot_view scenario_unviewed) = scenario_views"
    by (simp add: scenario_unviewed_def scenario_def)
  have f: "for_in [(''S'', [renderer_A, renderer_K])] = [(''S'', [renderer_A, renderer_K])]"
    by (simp add: for_in_def is_array_index_def is_digit_def)
  have "filter is_select (fst (view_select scenario_unviewed (PointGeometry 5 5) True Intersect)) =
     [Sm_select (SelectionManager (DataSource ''S''))
        [Own_value ''view of A'', Inherited_member ''constructor'']
        (PointGeometry 5 5) True Intersect]"
    unfolding select_calls_returns[OF scenario_unviewed_groups] f
    by (simp add: group_select_def pushed_views_def views scenario_views_def js_in_def
        js_get_def has_own_def Object_prototype_keys_def renderer_A_def renderer_K_def)
  then show ?thesis
    by (simp add: scenario_unviewed_groups views scenario_views_def)
qed

subsection \<open>A selection that throws\<close>

lemma select_inherited:
  "view_select scenario_inherited geometry final m = ([], Some TypeError)"
  by (rule select_throws)
     (simp add: view_computed_renderers_by_data_source_def scenario_inherited_def scenario_def
      renderer_A_def renderer_X_def renderer_C_def
      js_in_def has_own_def push_at_def Object_prototype_keys_def)

text \<open>
  Claim C8 says that a configured callback is triggered after the updates and before
  the notification. The lemma \<open>select_trace_order\<close> below shows this order for the
  sequences in which no data source is named like a property of \<^verbatim>\<open>Object.prototype\<close>.
  Here the callback is configured and a data source is named \<open>constructor\<close>: the grouping
  throws, and \<^verbatim>\<open>_select\<close> calls neither the callback nor anything else.
\<close>

theorem select_skips_callback_on_inherited_key:
  "callback (model scenario_inherited) = Some () \<and>
   view_select scenario_inherited (PointGeometry 5 5) True Intersect = ([], Some TypeError) \<and>
   filter is_emit_callback
     (fst (view_select scenario_inherited (PointGeometry 5 5) True Intersect)) = []"
  unfolding select_inherited by (simp add: scenario_inherited_def scenario_def)

text \<open>
  Claim C10 says that every call of \<^verbatim>\<open>_select\<close> publishes one selection event. The lemma
  \<open>select_trace_order\<close> below shows it for the sequences in which no data source is named
  like a property of \<^verbatim>\<open>Object.prototype\<close>, the empty sequence among them. Here a data
  source is named \<open>constructor\<close>: the grouping throws, and \<^verbatim>\<open>_select\<close> publishes no event.
\<close>

theorem select_publishes_nothing_on_inherited_key:
  "view_select scenario_inherited (RectGeometry 10 50 0 20) False Replace = ([], Some TypeError) \<and>
   filter is_trigger_event
     (fst (view_select scenario_inherited (RectGeometry 10 50 0 20) False Replace)) = []"
  unfolding select_inherited by simp

lemma select_trace_order:
  assumes "\<forall>r\<in>set (computed_renderers v). \<forall>k.
             source_id r = Some k \<longrightarrow> k \<notin> set Object_prototype_keys"
  shows "\<exists>obj. view_computed_renderers_by_data_source v = Inr obj \<and>
     view_select v geometry final m =
       (map (group_select v geometry final m) (for_in obj) @
        (case callback (model v) of None \<Rightarrow> [] | Some c \<Rightarrow> [Emit_callback geometry]) @
        [Trigger_event
           (geometry_data (xscales_default (frame (plot_view v)))
              (yscales_default (frame (plot_view v))) geometry) final],
        None)"
proof -
  from grouping_partitions[OF assms] obtain obj where
    "view_computed_renderers_by_data_source v = Inr obj" by blast
  with select_returns[OF this] show ?thesis by blast
qed

lemma select_without_groups:
  assumes "\<forall>r\<in>set (computed_renderers v). source_id r = None"
  shows "view_select v geometry final m =
       ((case callback (model v) of None \<Rightarrow> [] | Some c \<Rightarrow> [Emit_callback geometry]) @
        [Trigger_event
           (geometry_data (xscales_default (frame (plot_view v)))
              (yscales_default (frame (plot_view v))) geometry) final],
        None)"
proof -
  have "\<forall>r\<in>set (computed_renderers v). \<forall>k.
          source_id r = Some k \<longrightarrow> k \<notin> set Object_prototype_keys"
    using assms by simp
  from grouping_partitions[OF this] obtain obj where
    g: "view_computed_renderers_by_data_source v = Inr obj"
    and k: "fst ` set obj = {k. \<exists>r\<in>set (computed_renderers v). source_id r = Some k}"
    by blast
  from k assms have "obj = []" by auto
  with select_returns[OF g, of geometry final m] show ?thesis
    by (simp add: for_in_def)
qed

lemma scenario_select:
  "view_select scenario (PointGeometry 5 5) True Intersect =
     ([Sm_select (SelectionManager (DataSource ''S''))
         [Own_value ''view of A'', Own_value ''view of G'']
         (PointGeometry 5 5) True Intersect,
       Sm_select (SelectionManager (DataSource ''T'')) [Own_value ''view of C'']
         (PointGeometry 5 5) True Intersect,
       Emit_callback (PointGeometry 5 5),
       Trigger_event (With_x_y (PointGeometry 5 5) 10 (- 5)) True],
      None)"
proof -
  have "callback (model scenario) = Some ()"
    and "xscales_default (frame (plot_view scenario)) = scale_double"
    and "yscales_default (frame (plot_view scenario)) = scale_negate"
    and "renderer_views (plot_view scenario) = scenario_views"
    by (simp_all add: scenario_def)
  then show ?thesis
    unfolding select_returns[OF scenario_groups] for_in_scenario_groups
    by (simp add: group_select_def pushed_views_def scenario_views_def scale_double_def
        scale_negate_def js_in_def js_get_def has_own_def Object_prototype_keys_def
        renderer_A_def renderer_B_def renderer_C_def renderer_G_def)
qed

subsection \<open>Clearing\<close>

lemma perform_all_append:
  "perform_all ext (xs @ ys) s = perform_all ext ys (perform_all ext xs s)"
  by (simp add: perform_all_def)

lemma perform_clears:
  "perform_all ext (map (\<lambda>r. Sm_clear (get_selection_manager r)) rs) s =
   s\<lparr>selections :=
        (\<lambda>sm. if sm \<in> get_selection_manager ` set rs then [] else selections s sm)\<rparr>"
proof (induction rs arbitrary: s)
  case Nil
  then show ?case by (simp add: perform_all_def)
next
  case (Cons r rs)
  have "perform_all ext (map (\<lambda>r. Sm_clear (get_selection_manager r)) (r # rs)) s =
        perform_all ext (map (\<lambda>r. Sm_clear (get_selection_manager r)) rs)
          (s\<lparr>selections := (selections s)(get_selection_manager r := [])\<rparr>)"
    by (simp add: perform_all_def)
  also have "\<dots> = s\<lparr>selections :=
        (\<lambda>sm. if sm \<in> get_selection_manager ` set (r # rs) then [] else selections s sm)\<rparr>"
    unfolding Cons.IH by (auto simp: fun_eq_iff)
  finally show ?case .
qed

lemma perform_view_clear:
  "perform_all ext (view_clear v) s =
   \<lparr>selections =
      (\<lambda>sm. if sm \<in> get_selection_manager ` set (computed_renderers v) then []
            else selections s sm),
    render_requests = Suc (render_requests s)\<rparr>"
  unfolding view_clear_def perform_all_append perform_clears
  by (simp add: perform_all_def)

lemma observe_view_clear:
  "observe v (perform_all ext (view_clear v) s) =
   (map (\<lambda>r. []) (computed_renderers v), Suc (snd (observe v s)))"
  unfolding perform_view_clear by (simp add: observe_def)

text \<open>
  Claim C6. \<^verbatim>\<open>_clear\<close> calls \<^verbatim>\<open>clear()\<close> on the selection manager of every computed
  renderer, in their order and without grouping, and then requests one render, and
  nothing else. With \<^verbatim>\<open>clear()\<close> emptying the selection (as the spec describes it), two
  calls in a row leave the same selections as one call, the selection of the data
  source of every computed renderer being empty; each call adds one render request.
\<close>

theorem clear_is_idempotent:
  "selections (perform_all ext (view_clear v @ view_clear v) s) =
     selections (perform_all ext (view_clear v) s) \<and>
   map (\<lambda>r. selections (perform_all ext (view_clear v) s) (get_selection_manager r))
     (computed_renderers v) = map (\<lambda>r. []) (computed_renderers v) \<and>
   render_requests (perform_all ext (view_clear v) s) = Suc (render_requests s) \<and>
   render_requests (perform_all ext (view_clear v @ view_clear v) s) =
     Suc (Suc (render_requests s)) \<and>
   view_clear v =
     map (\<lambda>r. Sm_clear (get_selection_manager r)) (computed_renderers v) @ [Request_render] \<and>
   length (filter (\<lambda>c. c = Request_render) (view_clear v)) = 1"
proof (intro conjI)
  show "selections (perform_all ext (view_clear v @ view_clear v) s) =
     selections (perform_all ext (view_clear v) s)"
    unfolding perform_all_append perform_view_clear by (auto simp: fun_eq_iff)
  show "map (\<lambda>r. selections (perform_all ext (view_clear v) s) (get_selection_manager r))
     (computed_renderers v) = map (\<lambda>r. []) (computed_renderers v)"
    unfolding perform_view_clear by simp
  show "render_requests (perform_all ext (view_clear v) s) = Suc (render_requests s)"
    unfolding perform_view_clear by simp
  show "render_requests (perform_all ext (view_clear v @ view_clear v) s) =
     Suc (Suc (render_requests s))"
    unfolding perform_all_append perform_view_clear by simp
  show "view_clear v =
     map (\<lambda>r. Sm_clear (get_selection_manager r)) (computed_renderers v) @ [Request_render]"
    by (simp add: view_clear_def)
  show "length (filter (\<lambda>c. c = Request_render) (view_clear v)) = 1"
    by (simp add: view_clear_def filter_map comp_def)
qed

lemma observe_other_listeners:
  assumes "\<forall>n s'. observe v (ext (Listener_call n) s') = observe v s'"
    and "View_clear \<notin> set slots"
  shows "observe v (perform_all ext (concat (map (call_slot v) slots)) s) = observe v s"
  using assms(2)
proof (induction slots arbitrary: s)
  case Nil
  then show ?case by (simp add: perform_all_def)
next
  case (Cons a slots)
  from Cons.prems obtain n where a: "a = Other_listener n" by (cases a) auto
  have "observe v (perform_all ext (concat (map (call_slot v) (a # slots))) s) =
        observe v (perform_all ext (concat (map (call_slot v) slots)) (ext (Listener_call n) s))"
    unfolding a by (simp add: perform_all_def)
  also have "\<dots> = observe v (ext (Listener_call n) s)"
    using Cons.IH Cons.prems by simp
  also have "\<dots> = observe v s" using assms(1) by simp
  finally show ?case .
qed

text \<open>
  Claim C9, as the code has it. Let the view be connected once to the clear signal,
  among any other listeners, none of which changes what is observed (the selections of
  the data sources of the computed renderers and the number of render requests). Then a
  key event with the Escape code and the emission of the clear signal lead to the same
  observation, from any state.
\<close>

theorem escape_equals_emit:
  assumes "keyCode ev = Keys_Esc"
    and "clear (model v) = before @ [View_clear] @ after"
    and "View_clear \<notin> set before" and "View_clear \<notin> set after"
    and "\<forall>n s'. observe v (ext (Listener_call n) s') = observe v s'"
  shows "observe v (perform_all ext (view_keyup v ev) s) =
         observe v (perform_all ext (emit v) s)"
proof -
  let ?pre = "concat (map (call_slot v) before)"
  let ?post = "concat (map (call_slot v) after)"
  have e: "emit v = ?pre @ view_clear v @ ?post"
    by (simp add: emit_def assms(2))
  have "observe v (perform_all ext (emit v) s) =
        observe v (perform_all ext (view_clear v) (perform_all ext ?pre s))"
    unfolding e perform_all_append
    by (rule observe_other_listeners[OF assms(5) assms(4)])
  also have "\<dots> = (map (\<lambda>r. []) (computed_renderers v), Suc (snd (observe v (perform_all ext ?pre s))))"
    by (rule observe_view_clear)
  also have "\<dots> = (map (\<lambda>r. []) (computed_renderers v), Suc (snd (observe v s)))"
    unfolding observe_other_listeners[OF assms(5) assms(3)] ..
  also have "\<dots> = observe v (perform_all ext (view_clear v) s)"
    by (rule observe_view_clear[symmetric])
  finally show ?thesis using assms(1) by (simp add: view_keyup_def)
qed

lemma scenario_listeners_signal:
  "scenario_listeners =
     scenario\<lparr>model := (model scenario)
       \<lparr>clear := [Other_listener ''toolbar'', View_clear, Other_listener ''log'']\<rparr>\<rparr>"
  by (simp add: scenario_listeners_def connect_listener_def connect_signals_def connect_def
      initialize_def)

lemma scenario_listeners_calls:
  "view_keyup scenario_listeners esc_event =
     [Sm_clear (SelectionManager (DataSource ''S'')), Sm_clear (SelectionManager (DataSource ''U'')),
      Sm_clear (SelectionManager (DataSource ''T'')), Sm_clear (SelectionManager (DataSource ''S'')),
      Sm_clear (SelectionManager (DataSource ''S'')), Request_render]"
  "emit scenario_listeners =
     [Listener_call ''toolbar'',
      Sm_clear (SelectionManager (DataSource ''S'')), Sm_clear (SelectionManager (DataSource ''U'')),
      Sm_clear (SelectionManager (DataSource ''T'')), Sm_clear (SelectionManager (DataSource ''S'')),
      Sm_clear (SelectionManager (DataSource ''S'')), Request_render,
      Listener_call ''log'']"
  by (simp_all add: view_keyup_def esc_event_def Keys_Esc_def emit_def view_clear_def
      scenario_listeners_signal scenario_def renderer_A_def renderer_B_def renderer_C_def
      renderer_G_def renderer_O_def)

theorem escape_equals_emit_witness:
  "keyCode esc_event = Keys_Esc \<and>
   clear (model scenario_listeners) =
     [Other_listener ''toolbar''] @ [View_clear] @ [Other_listener ''log''] \<and>
   observe scenario_listeners
     (perform_all no_effect (view_keyup scenario_listeners esc_event) selected_state) =
   observe scenario_listeners
     (perform_all no_effect (emit scenario_listeners) selected_state) \<and>
   observe scenario_listeners
     (perform_all no_effect (emit scenario_listeners) selected_state) =
     ([[], [], [], [], []], 1)"
proof -
  have k: "keyCode esc_event = Keys_Esc" by (simp add: esc_event_def Keys_Esc_def)
  have c: "clear (model scenario_listeners) =
     [Other_listener ''toolbar''] @ [View_clear] @ [Other_listener ''log'']"
    by (simp add: scenario_listeners_signal)
  have n: "\<forall>n s'. observe scenario_listeners (no_effect (Listener_call n) s') =
        observe scenario_listeners s'"
    by (simp add: no_effect_def)
  have o: "observe scenario_listeners
     (perform_all no_effect (emit scenario_listeners) selected_state) = ([[], [], [], [], []], 1)"
    unfolding scenario_listeners_calls
    by (simp add: perform_all_def observe_def no_effect_def selected_state_def
        scenario_listeners_signal scenario_def renderer_A_def renderer_B_def renderer_C_def
        renderer_G_def renderer_O_def)
  from escape_equals_emit[OF k c _ _ n, of selected_state] k c o show ?thesis by simp
qed

text \<open>
  Claim C9 says that an Escape key event and the emission of the clear signal lead to
  the same selections and the same number of render requests. The Escape key event calls
  \<^verbatim>\<open>_clear\<close> once and no listener. With the listeners \<open>toolbar\<close> and \<open>log\<close> each requesting
  a render, the emission leaves three render requests and the key event one. With the
  view connected twice and no other listener, the emission leaves two and the key event
  one.
\<close>

theorem escape_equals_emit_counterexample:
  "keyCode esc_event = Keys_Esc \<and>
   observe scenario_listeners
     (perform_all rendering_listener (view_keyup scenario_listeners esc_event) selected_state) \<noteq>
   observe scenario_listeners
     (perform_all rendering_listener (emit scenario_listeners) selected_state) \<and>
   snd (observe scenario_listeners
     (perform_all rendering_listener (view_keyup scenario_listeners esc_event) selected_state)) = 1 \<and>
   snd (observe scenario_listeners
     (perform_all rendering_listener (emit scenario_listeners) selected_state)) = 3 \<and>
   clear (model scenario_twice) = [View_clear, View_clear] \<and>
   observe scenario_twice
     (perform_all no_effect (view_keyup scenario_twice esc_event) selected_state) \<noteq>
   observe scenario_twice (perform_all no_effect (emit scenario_twice) selected_state) \<and>
   snd (observe scenario_twice
     (perform_all no_effect (view_keyup scenario_twice esc_event) selected_state)) = 1 \<and>
   snd (observe scenario_twice
     (perform_all no_effect (emit scenario_twice) selected_state)) = 2"
proof -
  have k: "keyCode esc_event = Keys_Esc" by (simp add: esc_event_def Keys_Esc_def)
  have a: "snd (observe scenario_listeners
     (perform_all rendering_listener (view_keyup scenario_listeners esc_event) selected_state)) = 1"
    unfolding scenario_listeners_calls
    by (simp add: perform_all_def observe_def selected_state_def)
  have b: "snd (observe scenario_listeners
     (perform_all rendering_listener (emit scenario_listeners) selected_state)) = 3"
    unfolding scenario_listeners_calls
    by (simp add: perform_all_def observe_def selected_state_def)
  have t: "clear (model scenario_twice) = [View_clear, View_clear]"
    by (simp add: scenario_twice_def connect_signals_def connect_def scenario_def)
  have kt: "view_keyup scenario_twice esc_event = view_clear scenario_twice"
    using k by (simp add: view_keyup_def)
  have et: "emit scenario_twice = view_clear scenario_twice @ view_clear scenario_twice"
    by (simp add: emit_def t)
  have c: "snd (observe scenario_twice
     (perform_all no_effect (view_keyup scenario_twice esc_event) selected_state)) = 1"
    unfolding kt perform_view_clear by (simp add: observe_def selected_state_def)
  have d: "snd (observe scenario_twice
     (perform_all no_effect (emit scenario_twice) selected_state)) = 2"
    unfolding et perform_all_append perform_view_clear
    by (simp add: observe_def selected_state_def)
  from a b have ab: "observe scenario_listeners
     (perform_all rendering_listener (view_keyup scenario_listeners esc_event) selected_state) \<noteq>
   observe scenario_listeners
     (perform_all rendering_listener (emit scenario_listeners) selected_state)"
    by auto
  from c d have cd: "observe scenario_twice
     (perform_all no_effect (view_keyup scenario_twice esc_event) selected_state) \<noteq>
   observe scenario_twice (perform_all no_effect (emit scenario_twice) selected_state)"
    by auto
  from k a b t c d ab cd show ?thesis by blast
qed




theorem clear_is_idempotent_witness:
  "selections (perform_all no_effect (view_clear scenario @ view_clear scenario) selected_state) =
     selections (perform_all no_effect (view_clear scenario) selected_state) \<and>
   render_requests (perform_all no_effect (view_clear scenario) selected_state) = 1 \<and>
   selections (perform_all no_effect (view_clear scenario) selected_state)
     (SelectionManager (DataSource ''U'')) = [] \<and>
   selections selected_state (SelectionManager (DataSource ''U'')) = [1, 2]"
proof -
  note t = clear_is_idempotent[of no_effect scenario selected_state]
  have crs: "computed_renderers scenario = [renderer_A, renderer_O, renderer_C, renderer_B, renderer_G]"
    by (simp add: scenario_def)
  from t have a: "selections (perform_all no_effect (view_clear scenario @ view_clear scenario) selected_state) =
     selections (perform_all no_effect (view_clear scenario) selected_state)"
    by (rule conjunct1)
  from t have b: "render_requests (perform_all no_effect (view_clear scenario) selected_state) =
     Suc (render_requests selected_state)"
    by blast
  from t have "map (\<lambda>r. selections (perform_all no_effect (view_clear scenario) selected_state)
       (get_selection_manager r)) (computed_renderers scenario) =
     map (\<lambda>r. []) (computed_renderers scenario)"
    by blast
  then have c: "selections (perform_all no_effect (view_clear scenario) selected_state)
     (SelectionManager (DataSource ''U'')) = []"
    unfolding crs by (simp add: renderer_O_def)
  from a b c show ?thesis by (simp add: selected_state_def)
qed

end
